theory Spec2Isabelle
  imports Main "HOL-Library.AList"
begin

section \<open>Python values, errors, HTTP\<close>

text \<open>
  The client of \<^verbatim>\<open>src/hudu_py/API.py\<close> moves decoded JSON around: \<open>None\<close>, booleans,
  integers, strings, lists and dictionaries. A dictionary keeps its insertion order (the
  code reads "the first key" of a response), so it is an association list;
  \<open>d[k] = v\<close> is \<open>AList.update k v d\<close>, which replaces in place or appends at the end,
  as Python does. Python's \<open>None\<close> is \<open>JNull\<close>: an optional argument left unset is
  \<open>JNull\<close>, and \<open>x is None\<close> is \<open>x = JNull\<close>. Non-integer numbers are left out of
  the value type.
\<close>

datatype json =
    JNull
  | JBool bool
  | JInt int
  | JStr string
  | JList "json list"
  | JDict "(string \<times> json) list"

type_synonym pydict = "(string \<times> json) list"

datatype error =
    ValueError string
  | NameError string
  | TypeError
  | KeyError
  | IndexError
  | JSONDecodeError

text \<open>
  A response of the \<^verbatim>\<open>requests\<close> library, as far as the client reads it:
  \<open>status_code\<close>; \<open>body\<close> is what \<open>response.json()\<close> returns, \<open>None\<close> when it
  raises; \<open>reason\<close> is \<open>None\<close> when \<open>hasattr(response, 'reason')\<close> is false and
  otherwise the text that the f-string prints for it.
\<close>

record response =
  status_code :: int
  body :: "json option"
  reason :: "string option"

text \<open>One call of \<open>requests.get\<close>, \<open>requests.put\<close>, \<open>requests.post\<close> or
  \<open>requests.delete\<close>: the URI, the headers, and the query parameters or the body.
  The body is the value handed to \<open>json.dumps\<close>.\<close>

datatype request =
    Get string "(string \<times> string) list" pydict
  | Put string "(string \<times> string) list" json
  | Post string "(string \<times> string) list" json
  | Delete string "(string \<times> string) list"

text \<open>The fields of the client object that \<open>do_request\<close> reads.\<close>

record client =
  url :: string
  headers :: "(string \<times> string) list"

text \<open>
  What a call has done once the responses it was given are used up: it returned a value
  (\<open>Returned\<close>; \<open>ReturnedResponse\<close> when the write path hands back the raw response),
  it raised, or it is still waiting for the response to its last request.
\<close>

datatype outcome =
    Returned json
  | ReturnedResponse response
  | Raised error
  | Waiting

subsection \<open>Library functions of Python\<close>

definition digit_char :: "nat \<Rightarrow> char" where
  "digit_char d = ''0123456789'' ! (d mod 10)"

function digits_of :: "nat \<Rightarrow> string" where
  "digits_of n = (if n < 10 then [digit_char n] else digits_of (n div 10) @ [digit_char (n mod 10)])"
  by pat_completeness auto
termination
  by (relation "measure (\<lambda>n. n)") auto

declare digits_of.simps [simp del]

text \<open>\<open>str(i)\<close> for an integer, as an f-string prints it.\<close>

definition str_int :: "int \<Rightarrow> string" where
  "str_int i = (if i < 0 then CHR ''-'' # digits_of (nat (- i)) else digits_of (nat i))"

text \<open>The value of a decimal digit, to read \<open>str(i)\<close> back.\<close>

definition digit_val :: "char \<Rightarrow> nat" where
  "digit_val ch = of_char ch - 48"

text \<open>\<open>sep.join(xs)\<close>.\<close>

fun join :: "string \<Rightarrow> string list \<Rightarrow> string" where
  "join sep [] = []"
| "join sep [x] = x"
| "join sep (x # y # ys) = x @ sep @ join sep (y # ys)"

text \<open>\<open>type(v).__name__\<close>.\<close>

fun type_name :: "json \<Rightarrow> string" where
  "type_name JNull = ''NoneType''"
| "type_name (JBool b) = ''bool''"
| "type_name (JInt i) = ''int''"
| "type_name (JStr s) = ''str''"
| "type_name (JList xs) = ''list''"
| "type_name (JDict d) = ''dict''"

text \<open>\<open>len(v)\<close>: lists and strings have a length, dictionaries too; the rest raise.\<close>

fun py_len :: "json \<Rightarrow> error + int" where
  "py_len (JList xs) = Inr (int (length xs))"
| "py_len (JStr s) = Inr (int (length s))"
| "py_len (JDict d) = Inr (int (length d))"
| "py_len v = Inl TypeError"

text \<open>\<open>result += v\<close> on a list \<open>result\<close>: extends it with the elements of a list, the
  characters of a string, the keys of a dictionary; the rest raise.\<close>

fun py_extend :: "json list \<Rightarrow> json \<Rightarrow> error + json list" where
  "py_extend acc (JList xs) = Inr (acc @ xs)"
| "py_extend acc (JStr s) = Inr (acc @ map (\<lambda>c. JStr [c]) s)"
| "py_extend acc (JDict d) = Inr (acc @ map (\<lambda>kv. JStr (fst kv)) d)"
| "py_extend acc v = Inl TypeError"

text \<open>\<open>v[k]\<close> with a string key \<open>k\<close>: a dictionary looks the key up; every other value
  of the model raises \<open>TypeError\<close>.\<close>

fun py_getitem :: "json \<Rightarrow> string \<Rightarrow> error + json" where
  "py_getitem (JDict d) k = (case map_of d k of None \<Rightarrow> Inl KeyError | Some v \<Rightarrow> Inr v)"
| "py_getitem v k = Inl TypeError"

section \<open>The request engine: \<open>Hudu.do_request\<close>\<close>

definition methods :: "string list" where
  "methods = [''GET'', ''POST'', ''PUT'', ''DELETE'']"

text \<open>
  The variables of the GET loop. \<open>p['page']\<close> and \<open>p['page_size']\<close> are only ever
  written by the engine, with integers, so they are the fields \<open>page\<close> and \<open>page_size\<close>;
  the dictionary sent with a request is the caller's \<open>p\<close> with both keys set
  (\<open>get_params\<close>).
\<close>

record loop_state =
  result :: "json list"
  page :: int
  page_size :: int
  response_size :: int

definition get_params :: "pydict \<Rightarrow> loop_state \<Rightarrow> pydict" where
  "get_params p st =
     AList.update ''page_size'' (JInt (page_size st)) (AList.update ''page'' (JInt (page st)) p)"

definition get_request :: "client \<Rightarrow> string \<Rightarrow> pydict \<Rightarrow> loop_state \<Rightarrow> request" where
  "get_request c URI p st = Get URI (headers c) (get_params p st)"

text \<open>Lines 137-148: the data of a decoded response.\<close>

fun r_data_of :: "json \<Rightarrow> error + json" where
  "r_data_of (JDict []) = Inl IndexError"
| "r_data_of (JDict ((key_name, v) # rest)) = Inr v"
| "r_data_of (JList xs) = Inr (JList xs)"
| "r_data_of v =
     Inl (ValueError (''I'' @ [CHR 0x27] @ ''m not set up to handle this type: <class ''
            @ [CHR 0x27] @ type_name v @ [CHR 0x27] @ ''>''))"

text \<open>Lines 149-161: the result and the paging variables after a page of data.\<close>

definition advance :: "loop_state \<Rightarrow> int \<Rightarrow> json list \<Rightarrow> loop_state" where
  "advance st n res =
     st\<lparr> result := res, response_size := n,
         page_size := (if n = 25 then 25 else page_size st),
         page := page st + 1 \<rparr>"

fun on_data :: "loop_state \<Rightarrow> json \<Rightarrow> error + loop_state" where
  "on_data st (JDict d) = Inr (advance st 1 [JDict d])"
| "on_data st r_data =
     (case py_len r_data of
        Inl e \<Rightarrow> Inl e
      | Inr n \<Rightarrow> (case py_extend (result st) r_data of
                   Inl e \<Rightarrow> Inl e
                 | Inr res \<Rightarrow> Inr (advance st n res)))"

text \<open>Lines 165-169.\<close>

definition err_str :: "response \<Rightarrow> string" where
  "err_str r =
     ''Error '' @ str_int (status_code r)
       @ (case reason r of None \<Rightarrow> [] | Some s \<Rightarrow> '' --- '' @ s)"

text \<open>Lines 133-169: the body of the loop after the response has arrived.\<close>

definition on_response :: "loop_state \<Rightarrow> response \<Rightarrow> error + loop_state" where
  "on_response st r =
     (if status_code r = 200 then
        (case body r of
           None \<Rightarrow> Inl JSONDecodeError
         | Some r_json \<Rightarrow>
             (case r_data_of r_json of Inl e \<Rightarrow> Inl e | Inr r_data \<Rightarrow> on_data st r_data))
      else if status_code r = 429 then Inr st
      else Inl (ValueError (err_str r)))"

text \<open>
  Lines 124-169: the loop. The engine is deterministic, so a call is fixed by the
  responses it receives, in order: the last argument. Each request uses up one response;
  with none left the call is \<open>Waiting\<close>, its last request sent. The second component is
  the list of requests sent, in order. The calls of \<open>time.sleep\<close> (10 ms after a
  request, 30 s after a 429) change no variable and are left out.
\<close>

fun get_loop :: "client \<Rightarrow> string \<Rightarrow> pydict \<Rightarrow> loop_state \<Rightarrow> response list
                   \<Rightarrow> outcome \<times> request list" where
  "get_loop c URI p st [] =
     (if response_size st \<ge> page_size st then (Waiting, [get_request c URI p st])
      else (Returned (JList (result st)), []))"
| "get_loop c URI p st (r # rs) =
     (if response_size st \<ge> page_size st then
        (case on_response st r of
           Inl e \<Rightarrow> (Raised e, [get_request c URI p st])
         | Inr st' \<Rightarrow>
             (case get_loop c URI p st' rs of
                (out, tr) \<Rightarrow> (out, get_request c URI p st # tr)))
      else (Returned (JList (result st)), []))"

text \<open>Lines 118-121.\<close>

definition initial_state :: loop_state where
  "initial_state = \<lparr> result = [], page = 1, page_size = 1000, response_size = 1000 \<rparr>"

text \<open>Lines 170-188: one request, whose response is decoded if it can be.\<close>

definition write_request :: "client \<Rightarrow> string \<Rightarrow> string \<Rightarrow> pydict \<Rightarrow> request" where
  "write_request c method URI p =
     (if method = ''PUT'' then Put URI (headers c) (JDict p)
      else if method = ''POST'' then Post URI (headers c) (JDict p)
      else Delete URI (headers c))"

fun write_path :: "client \<Rightarrow> string \<Rightarrow> string \<Rightarrow> pydict \<Rightarrow> response list
                     \<Rightarrow> outcome \<times> request list" where
  "write_path c method URI p [] = (Waiting, [write_request c method URI p])"
| "write_path c method URI p (r # rs) =
     (case body r of
        Some j \<Rightarrow> (Returned j, [write_request c method URI p])
      | None \<Rightarrow> (ReturnedResponse r, [write_request c method URI p]))"

text \<open>\<open>do_request(method, endpoint, p)\<close>; \<open>endpoint\<close> is \<open>None\<close> when it is not given.\<close>

definition do_request :: "client \<Rightarrow> string \<Rightarrow> string option \<Rightarrow> pydict \<Rightarrow> response list
                            \<Rightarrow> outcome \<times> request list" where
  "do_request c method endpoint p rs =
     (if method \<notin> set methods then
        (Raised (ValueError (''Please specify HTTP method: '' @ join '', '' methods)), [])
      else case endpoint of
        None \<Rightarrow> (Raised (ValueError ''Please specify endpoint.''), [])
      | Some ep \<Rightarrow>
          (let URI = url c @ ''/'' @ ep in
           if method = ''GET'' then get_loop c URI p initial_state rs
           else write_path c method URI p rs))"

section \<open>The resource methods\<close>

text \<open>\<open>if v is not None: params[k] = v\<close>.\<close>

definition set_if_given :: "string \<Rightarrow> json \<Rightarrow> pydict \<Rightarrow> pydict" where
  "set_if_given k v params = (if v \<noteq> JNull then AList.update k v params else params)"

subsection \<open>Activity logs\<close>

text \<open>
  Lines 196-212 of \<open>get_activity_logs\<close>. \<open>start_date\<close> is a \<open>datetime\<close> or
  \<open>None\<close>; it is given by the text that \<open>start_date.isoformat()\<close> returns. The
  variable \<open>message\<close> is written and never read.
\<close>

definition activity_logs_params ::
    "json \<Rightarrow> json \<Rightarrow> json \<Rightarrow> json \<Rightarrow> json \<Rightarrow> string option \<Rightarrow> pydict" where
  "activity_logs_params user_id user_email resource_id resource_type action_message start_date =
     (let resource_id1 =
            (if resource_id \<noteq> JNull \<and> resource_type = JNull then JNull else resource_id);
          resource_type1 =
            (if resource_type \<noteq> JNull \<and> resource_id1 = JNull then JNull else resource_type);
          params = [];
          params = set_if_given ''user_id'' user_id params;
          params = set_if_given ''user_email'' user_email params;
          params = set_if_given ''resource_id'' resource_id1 params;
          params = set_if_given ''resource_type'' resource_type1 params;
          params = set_if_given ''action_message'' action_message params
      in case start_date of
           None \<Rightarrow> params
         | Some stamp \<Rightarrow> AList.update ''start_date'' (JStr stamp) params)"

definition get_activity_logs ::
    "client \<Rightarrow> json \<Rightarrow> json \<Rightarrow> json \<Rightarrow> json \<Rightarrow> json \<Rightarrow> string option \<Rightarrow> response list
       \<Rightarrow> outcome \<times> request list" where
  "get_activity_logs c user_id user_email resource_id resource_type action_message start_date rs =
     do_request c ''GET'' (Some ''activity_logs'')
       (activity_logs_params user_id user_email resource_id resource_type action_message start_date)
       rs"

subsection \<open>Single resources\<close>

text \<open>
  \<open>get_article\<close> and \<open>get_asset_layout\<close> pass \<open>params\<close> to \<open>do_request\<close>, a name
  that is neither a local variable of the method nor a global of the module. Python
  evaluates the arguments before the call, so the method raises \<open>NameError\<close> and
  \<open>do_request\<close> is never entered.
\<close>

definition get_article :: "client \<Rightarrow> int \<Rightarrow> response list \<Rightarrow> outcome \<times> request list" where
  "get_article c ident rs = (Raised (NameError ''params''), [])"

definition get_asset_layout :: "client \<Rightarrow> int \<Rightarrow> response list \<Rightarrow> outcome \<times> request list" where
  "get_asset_layout c ident rs = (Raised (NameError ''params''), [])"

text \<open>
  \<open>get_asset_password\<close> is the same method written without the undefined name. It
  leaves \<open>p\<close> to its default, a dictionary shared by all such calls that holds at most
  the keys \<open>page\<close> and \<open>page_size\<close> of an earlier GET; the loop sets both anew, so
  the call is the one with the empty dictionary.
\<close>

definition get_asset_password :: "client \<Rightarrow> int \<Rightarrow> response list \<Rightarrow> outcome \<times> request list" where
  "get_asset_password c ident rs =
     do_request c ''GET'' (Some (''asset_passwords/'' @ str_int ident)) [] rs"

subsection \<open>Updating an asset\<close>








section \<open>The lookup tables of \<open>Hudu.__init__\<close>\<close>

text \<open>
  A lookup table is a dictionary whose keys are names and ids side by side. Python finds
  a key by hash and equality: \<open>True\<close> and \<open>1\<close> are one key, as are \<open>False\<close> and
  \<open>0\<close>; lists and dictionaries are unhashable.
\<close>

datatype key = KNone | KInt int | KStr string

fun key_of :: "json \<Rightarrow> error + key" where
  "key_of JNull = Inr KNone"
| "key_of (JBool b) = Inr (KInt (if b then 1 else 0))"
| "key_of (JInt i) = Inr (KInt i)"
| "key_of (JStr s) = Inr (KStr s)"
| "key_of (JList xs) = Inl TypeError"
| "key_of (JDict d) = Inl TypeError"

type_synonym lookup = "key \<rightharpoonup> json"

text \<open>Lines 91-92 for one entry \<open>c\<close>: the right-hand side of an assignment is evaluated
  before the subscript of its target.\<close>

definition add_entry :: "json \<Rightarrow> lookup \<Rightarrow> error + lookup" where
  "add_entry c t =
     (case py_getitem c ''id'' of Inl e \<Rightarrow> Inl e | Inr ident \<Rightarrow>
      case py_getitem c ''name'' of Inl e \<Rightarrow> Inl e | Inr name \<Rightarrow>
      case key_of name of Inl e \<Rightarrow> Inl e | Inr kn \<Rightarrow>
      case key_of ident of Inl e \<Rightarrow> Inl e | Inr ki \<Rightarrow>
        Inr ((t(kn \<mapsto> ident))(ki \<mapsto> name)))"

text \<open>Lines 89-92: the table built from the fetched list \<open>temp_raw\<close>.\<close>

fun lookup_table_loop :: "json list \<Rightarrow> lookup \<Rightarrow> error + lookup" where
  "lookup_table_loop [] t = Inr t"
| "lookup_table_loop (c # rest) t =
     (case add_entry c t of Inl e \<Rightarrow> Inl e | Inr t1 \<Rightarrow> lookup_table_loop rest t1)"

definition lookup_table :: "json list \<Rightarrow> error + lookup" where
  "lookup_table temp_raw = lookup_table_loop temp_raw Map.empty"

text \<open>\<open>table[v]\<close>, and \<open>table[table[v]]\<close> on the table built from \<open>temp_raw\<close>.\<close>

definition table_get :: "lookup \<Rightarrow> json \<Rightarrow> error + json" where
  "table_get t v =
     (case key_of v of
        Inl e \<Rightarrow> Inl e
      | Inr k \<Rightarrow> (case t k of None \<Rightarrow> Inl KeyError | Some w \<Rightarrow> Inr w))"

definition table_get_twice :: "json list \<Rightarrow> json \<Rightarrow> error + json" where
  "table_get_twice temp_raw v =
     (case lookup_table temp_raw of
        Inl e \<Rightarrow> Inl e
      | Inr t \<Rightarrow> (case table_get t v of Inl e \<Rightarrow> Inl e | Inr w \<Rightarrow> table_get t w))"

definition table_get_once :: "json list \<Rightarrow> json \<Rightarrow> error + json" where
  "table_get_once temp_raw v =
     (case lookup_table temp_raw of Inl e \<Rightarrow> Inl e | Inr t \<Rightarrow> table_get t v)"

text \<open>The key under which the field \<open>f\<close> of an entry \<open>c\<close> is stored.\<close>

definition field_key :: "json \<Rightarrow> string \<Rightarrow> error + key" where
  "field_key c f = (case py_getitem c f of Inl e \<Rightarrow> Inl e | Inr v \<Rightarrow> key_of v)"

text \<open>
  The table \<open>t\<close> follows the entries \<open>S\<close> at the entry \<open>a\<close>, from field \<open>f\<close> to
  field \<open>g\<close>: under the \<open>f\<close>-key of \<open>a\<close> it holds the \<open>g\<close>-value of an entry of \<open>S\<close>
  with the same \<open>f\<close>-key. It is the invariant of the loop that builds the table.
\<close>

definition pairs_with :: "lookup \<Rightarrow> json set \<Rightarrow> string \<Rightarrow> string \<Rightarrow> json \<Rightarrow> bool" where
  "pairs_with t S f g a =
     (\<exists>b\<in>S. \<exists>k v. field_key a f = Inr k \<and> field_key b f = Inr k
                  \<and> py_getitem b g = Inr v \<and> t k = Some v)"

text \<open>\<open>a == b\<close> for two hashable values: they are the same key.\<close>

definition py_equal :: "json \<Rightarrow> json \<Rightarrow> bool" where
  "py_equal a b = (case (key_of a, key_of b) of (Inr ka, Inr kb) \<Rightarrow> ka = kb | _ \<Rightarrow> a = b)"

section \<open>Reading a trace, and example data\<close>

text \<open>The value a GET request carries for a query parameter.\<close>

fun request_param :: "request \<Rightarrow> string \<Rightarrow> json option" where
  "request_param (Get U h ps) k = map_of ps k"
| "request_param rq k = None"

text \<open>How often the page size changes from one request of a trace to the next.\<close>

fun page_size_changes :: "request list \<Rightarrow> nat" where
  "page_size_changes (a # b # rest) =
     (if request_param a ''page_size'' \<noteq> request_param b ''page_size'' then 1 else 0)
       + page_size_changes (b # rest)"
| "page_size_changes tr = 0"



definition example_client :: client where
  "example_client =
     \<lparr> url = ''https://hudu.example/api/v1'', headers = [(''accept'', ''application/json'')] \<rparr>"

definition ok :: "json \<Rightarrow> response" where
  "ok j = \<lparr> status_code = 200, body = Some j, reason = Some ''OK'' \<rparr>"

definition failed :: "int \<Rightarrow> string \<Rightarrow> response" where
  "failed code why = \<lparr> status_code = code, body = None, reason = Some why \<rparr>"

definition acme :: "json list" where
  "acme = [JDict [(''name'', JStr ''Acme''), (''id'', JInt 1)]]"

definition example_get :: "string \<Rightarrow> int \<Rightarrow> int \<Rightarrow> request" where
  "example_get ep pg psize =
     Get (''https://hudu.example/api/v1/'' @ ep) [(''accept'', ''application/json'')]
       [(''page'', JInt pg), (''page_size'', JInt psize)]"

section \<open>The GET loop, step by step\<close>

lemma get_loop_done:
  "\<not> page_size st \<le> response_size st \<Longrightarrow> get_loop c U p st rs = (Returned (JList (result st)), [])"
  by (cases rs) auto

lemma get_loop_head:
  "page_size st \<le> response_size st \<Longrightarrow> \<exists>tl. snd (get_loop c U p st rs) = get_request c U p st # tl"
  by (cases rs) (auto split: sum.splits prod.splits)

lemma on_response_429: "status_code r = 429 \<Longrightarrow> on_response st r = Inr st"
  by (simp add: on_response_def)

lemma get_loop_429:
  "page_size st \<le> response_size st \<Longrightarrow> status_code r = 429 \<Longrightarrow>
   get_loop c U p st (r # rs) = (fst (get_loop c U p st rs), get_request c U p st # snd (get_loop c U p st rs))"
  by (simp add: on_response_429 split: prod.splits)

lemma get_loop_429s:
  "page_size st \<le> response_size st \<Longrightarrow> \<forall>r\<in>set rs. status_code r = 429 \<Longrightarrow>
   get_loop c U p st (rs @ rest) =
     (fst (get_loop c U p st rest),
      replicate (length rs) (get_request c U p st) @ snd (get_loop c U p st rest))"
proof (induction rs)
  case Nil
  then show ?case by simp
next
  case (Cons r rs)
  then show ?case by (simp add: get_loop_429 del: get_loop.simps)
qed

lemma get_loop_insert_429:
  assumes "status_code r = 429"
  shows "get_loop c U p st (rs1 @ r # rs2) =
     (fst (get_loop c U p st (rs1 @ rs2)),
      (let tr = snd (get_loop c U p st (rs1 @ rs2)) in
       if length rs1 < length tr then take (Suc (length rs1)) tr @ drop (length rs1) tr else tr))"
proof (induction rs1 arbitrary: st)
  case Nil
  show ?case
  proof (cases "page_size st \<le> response_size st")
    case True
    from get_loop_head [OF True] obtain tl where "snd (get_loop c U p st rs2) = get_request c U p st # tl"
      by blast
    with True assms show ?thesis by (simp add: get_loop_429 del: get_loop.simps)
  next
    case False
    then show ?thesis by (simp add: get_loop_done del: get_loop.simps)
  qed
next
  case (Cons a rs1)
  show ?case
  proof (cases "page_size st \<le> response_size st")
    case True
    show ?thesis
    proof (cases "on_response st a")
      case (Inl e)
      with True show ?thesis by simp
    next
      case (Inr st')
      with True Cons.IH [of st'] show ?thesis
        by (simp add: Let_def split: prod.splits)
    qed
  next
    case False
    then show ?thesis by (simp add: get_loop_done del: get_loop.simps)
  qed
qed

lemma on_data_page_size:
  "on_data st d = Inr st1 \<Longrightarrow> page_size st1 = page_size st \<or> page_size st1 = 25"
  by (cases d) (auto simp: advance_def split: sum.splits if_splits)

lemma on_response_page_size:
  "on_response st r = Inr st1 \<Longrightarrow> page_size st1 = page_size st \<or> page_size st1 = 25"
  by (auto simp: on_response_def split: if_splits option.splits sum.splits dest: on_data_page_size)

lemma get_loop_waiting:
  "get_loop c U p st rs = (Waiting, tr) \<Longrightarrow>
   \<exists>st'. page_size st' \<le> response_size st'
       \<and> (page_size st' = page_size st \<or> page_size st' = 25)
       \<and> tr = butlast tr @ [get_request c U p st']
       \<and> (\<forall>rs'. get_loop c U p st (rs @ rs') =
             (fst (get_loop c U p st' rs'), butlast tr @ snd (get_loop c U p st' rs')))"
proof (induction rs arbitrary: st tr)
  case Nil
  then show ?case by (auto split: if_splits)
next
  case (Cons r rs)
  from Cons.prems have c: "page_size st \<le> response_size st"
    by (auto split: if_splits)
  from Cons.prems c obtain st1 tr1 where
    o: "on_response st r = Inr st1" and g: "get_loop c U p st1 rs = (Waiting, tr1)"
    and t: "tr = get_request c U p st # tr1"
    by (auto split: sum.splits prod.splits)
  have ps: "page_size st1 = page_size st \<or> page_size st1 = 25"
    using o by (rule on_response_page_size)
  from Cons.IH [OF g] obtain st' where
    h: "page_size st' \<le> response_size st'"
       "page_size st' = page_size st1 \<or> page_size st' = 25"
       "tr1 = butlast tr1 @ [get_request c U p st']"
       "\<forall>rs'. get_loop c U p st1 (rs @ rs') =
             (fst (get_loop c U p st' rs'), butlast tr1 @ snd (get_loop c U p st' rs'))"
    by blast
  from h(3) have ne: "tr1 \<noteq> []" by auto
  show ?case
    apply (rule exI [of _ st'])
    using h ps c o t ne by (auto split: prod.splits)
qed

lemma do_request_GET:
  "do_request c ''GET'' (Some ep) p rs = get_loop c (url c @ ''/'' @ ep) p initial_state rs"
  by (simp add: do_request_def methods_def)

lemma initial_cond: "page_size initial_state \<le> response_size initial_state"
  by (simp add: initial_state_def)

lemma first_request:
  "get_request c U p initial_state =
     Get U (headers c) (AList.update ''page_size'' (JInt 1000) (AList.update ''page'' (JInt 1) p))"
  by (simp add: get_request_def get_params_def initial_state_def)

section \<open>The claims\<close>

text \<open>
  Claim C1, as amended. A GET call that receives any number of rate-limit responses
  (status 429) and then a response with status 200 whose body is a bare list of fewer
  than 1000 items, but not of exactly 25, makes one round-trip for each of these
  responses, every one of them for page 1 with page size 1000, and returns that list; it
  makes exactly one round-trip when that response is the first.
\<close>

theorem get_short_list_round_trips:
  assumes "\<forall>r\<in>set rs429. status_code r = 429"
    and "status_code r = 200" and "body r = Some (JList xs)"
    and "length xs < 1000" and "length xs \<noteq> 25"
  shows "do_request c ''GET'' (Some ep) p (rs429 @ r # rest) =
           (Returned (JList xs),
            replicate (Suc (length rs429))
              (Get (url c @ ''/'' @ ep) (headers c)
                 (AList.update ''page_size'' (JInt 1000) (AList.update ''page'' (JInt 1) p))))"
proof -
  let ?U = "url c @ ''/'' @ ep"
  have o: "on_response initial_state r = Inr (advance initial_state (int (length xs)) xs)"
    using assms(2,3) by (simp add: on_response_def initial_state_def)
  have d: "\<not> page_size (advance initial_state (int (length xs)) xs)
             \<le> response_size (advance initial_state (int (length xs)) xs)"
    using assms(4,5) by (simp add: advance_def initial_state_def)
  have "get_loop c ?U p initial_state (r # rest) =
          (Returned (JList xs), [get_request c ?U p initial_state])"
    using o get_loop_done [OF d] by (simp add: initial_cond advance_def)
  then show ?thesis
    using get_loop_429s [OF initial_cond assms(1), of c ?U p "r # rest"]
    by (simp add: do_request_GET first_request replicate_append_same del: get_loop.simps)
qed

text \<open>
  As first stated, C1 promises a single round-trip for every bare list shorter than the
  page size. A page of exactly 25 items lowers the page size to 25 and the loop asks for
  page 2; and a 429 before the page costs a round-trip of its own.
\<close>

theorem get_short_list_round_trips_counterexample:
  "do_request example_client ''GET'' (Some ''assets'') []
       [ok (JList (replicate 25 JNull)), ok (JList [])] =
     (Returned (JList (replicate 25 JNull)),
      [example_get ''assets'' 1 1000, example_get ''assets'' 2 25])
   \<and> do_request example_client ''GET'' (Some ''assets'') []
       [failed 429 ''Too Many Requests'', ok (JList [JStr ''a''])] =
     (Returned (JList [JStr ''a'']),
      [example_get ''assets'' 1 1000, example_get ''assets'' 1 1000])"
  by code_simp

text \<open>The theorem of C1 at one rate-limit response followed by a list of one item.\<close>

theorem get_short_list_round_trips_witness:
  "status_code (failed 429 ''Too Many Requests'') = 429
   \<and> status_code (ok (JList [JStr ''a''])) = 200
   \<and> body (ok (JList [JStr ''a''])) = Some (JList [JStr ''a''])
   \<and> length [JStr ''a''] < 1000 \<and> length [JStr ''a''] \<noteq> 25
   \<and> do_request example_client ''GET'' (Some ''assets'') []
         ([failed 429 ''Too Many Requests''] @ ok (JList [JStr ''a'']) # []) =
       (Returned (JList [JStr ''a'']),
        [example_get ''assets'' 1 1000, example_get ''assets'' 1 1000])"
  using get_short_list_round_trips
    [of "[failed 429 ''Too Many Requests'']" "ok (JList [JStr ''a''])" "[JStr ''a'']"
        example_client "''assets''" "[]" "[]"]
  by (simp add: ok_def failed_def example_client_def example_get_def)

lemma do_request_GET_any:
  "do_request c ''GET'' ep p rs =
     (case ep of None \<Rightarrow> (Raised (ValueError ''Please specify endpoint.''), [])
      | Some e \<Rightarrow> get_loop c (url c @ ''/'' @ e) p initial_state rs)"
  by (simp add: do_request_def methods_def split: option.splits)

lemma initial_page_size: "page_size initial_state = 1000"
  by (simp add: initial_state_def)

text \<open>
  Claim C6. A call of \<open>do_request\<close> whose verb is none of GET, POST, PUT and DELETE, or
  that has no endpoint, raises before any network call is made: the outcome is the
  \<open>ValueError\<close> of lines 106-109 (the spec's \<open>InvalidArgument\<close>) and no request has
  been sent, whatever the server would have answered.
\<close>

theorem invalid_argument_before_any_request:
  assumes "method \<notin> {''GET'', ''POST'', ''PUT'', ''DELETE''} \<or> endpoint = None"
  shows "do_request c method endpoint p rs =
           (Raised (ValueError
              (if method \<notin> {''GET'', ''POST'', ''PUT'', ''DELETE''}
               then ''Please specify HTTP method: GET, POST, PUT, DELETE''
               else ''Please specify endpoint.'')), [])"
  using assms by (auto simp: do_request_def methods_def)

text \<open>The theorem of C6 at the verb PATCH, and at a GET with no endpoint.\<close>

theorem invalid_argument_before_any_request_witness:
  "do_request example_client ''PATCH'' (Some ''assets'') [] [ok (JList [])] =
     (Raised (ValueError ''Please specify HTTP method: GET, POST, PUT, DELETE''), [])
   \<and> do_request example_client ''GET'' None [] [ok (JList [])] =
     (Raised (ValueError ''Please specify endpoint.''), [])"
  using invalid_argument_before_any_request
      [of "''PATCH''" "Some ''assets''" example_client "[]" "[ok (JList [])]"]
    invalid_argument_before_any_request
      [of "''GET''" None example_client "[]" "[ok (JList [])]"]
  by simp

text \<open>
  Claim C3. Let a GET call be waiting for a response, after any responses \<open>rs\<close>. If the
  response has status 200 and decodes to a mapping whose first key holds a mapping, the
  call returns the one-element list of that inner mapping, and it has sent no request
  beyond those it had sent while waiting: no further page is requested.
\<close>

theorem single_object_ends_the_call:
  assumes "do_request c ''GET'' ep p rs = (Waiting, tr)"
    and "status_code r = 200"
    and "body r = Some (JDict ((k, JDict d) # others))"
  shows "do_request c ''GET'' ep p (rs @ r # rest) = (Returned (JList [JDict d]), tr)"
proof -
  from assms(1) obtain e where ep: "ep = Some e"
    by (cases ep) (auto simp: do_request_GET_any)
  let ?U = "url c @ ''/'' @ e"
  from assms(1) ep have w: "get_loop c ?U p initial_state rs = (Waiting, tr)"
    by (simp add: do_request_GET_any)
  from get_loop_waiting [OF w] obtain st where
    st: "page_size st \<le> response_size st"
        "page_size st = page_size initial_state \<or> page_size st = 25"
        "tr = butlast tr @ [get_request c ?U p st]"
        "\<forall>rs'. get_loop c ?U p initial_state (rs @ rs') =
           (fst (get_loop c ?U p st rs'), butlast tr @ snd (get_loop c ?U p st rs'))"
    by blast
  have o: "on_response st r = Inr (advance st 1 [JDict d])"
    using assms(2,3) by (simp add: on_response_def)
  have "\<not> page_size (advance st 1 [JDict d]) \<le> response_size (advance st 1 [JDict d])"
    using st(2) by (auto simp: advance_def initial_page_size)
  then have "get_loop c ?U p (advance st 1 [JDict d]) rest = (Returned (JList [JDict d]), [])"
    by (simp add: get_loop_done advance_def)
  with o st(1) have "get_loop c ?U p st (r # rest) =
      (Returned (JList [JDict d]), [get_request c ?U p st])"
    by simp
  with st(3,4) show ?thesis
    by (simp add: ep do_request_GET_any del: get_loop.simps)
qed

text \<open>The theorem of C3 for an object that arrives as the second page.\<close>

theorem single_object_ends_the_call_witness:
  "do_request example_client ''GET'' (Some ''assets'') []
       ([ok (JList (replicate 25 JNull))]
          @ ok (JDict [(''asset'', JDict [(''id'', JInt 7)])]) # [ok (JList [])]) =
     (Returned (JList [JDict [(''id'', JInt 7)]]),
      [example_get ''assets'' 1 1000, example_get ''assets'' 2 25])"
proof -
  have h: "do_request example_client ''GET'' (Some ''assets'') [] [ok (JList (replicate 25 JNull))] =
      (Waiting, [example_get ''assets'' 1 1000, example_get ''assets'' 2 25])"
    by code_simp
  show ?thesis
    using single_object_ends_the_call
      [OF h, of "ok (JDict [(''asset'', JDict [(''id'', JInt 7)])])" "''asset''"
         "[(''id'', JInt 7)]" "[]" "[ok (JList [])]"]
    by (simp add: ok_def)
qed

subsection \<open>The text of an integer names one integer\<close>

lemma digit_val_digit_char: "d < 10 \<Longrightarrow> digit_val (digit_char d) = d"
proof -
  assume "d < 10"
  then have "d = 0 \<or> d = 1 \<or> d = 2 \<or> d = 3 \<or> d = 4 \<or> d = 5 \<or> d = 6 \<or> d = 7
      \<or> d = 8 \<or> d = 9"
    by arith
  then show ?thesis
    by (elim disjE) (simp_all add: digit_val_def digit_char_def)
qed

lemma digit_char_not_space: "digit_char d \<noteq> CHR '' '' \<and> digit_char d \<noteq> CHR ''-''"
proof -
  have "d mod 10 < 10" by simp
  then have "d mod 10 = 0 \<or> d mod 10 = 1 \<or> d mod 10 = 2 \<or> d mod 10 = 3 \<or> d mod 10 = 4
      \<or> d mod 10 = 5 \<or> d mod 10 = 6 \<or> d mod 10 = 7 \<or> d mod 10 = 8 \<or> d mod 10 = 9"
    by arith
  then show ?thesis
    by (elim disjE) (simp_all add: digit_char_def)
qed

lemma digits_of_value: "foldl (\<lambda>a ch. 10 * a + digit_val ch) 0 (digits_of n) = n"
proof (induction n rule: digits_of.induct)
  case (1 n)
  show ?case
  proof (cases "n < 10")
    case True
    then show ?thesis by (simp add: digits_of.simps [of n] digit_val_digit_char)
  next
    case False
    with 1 show ?thesis
      by (simp add: digits_of.simps [of n] digit_val_digit_char)
  qed
qed

lemma digits_of_inject: "digits_of a = digits_of b \<Longrightarrow> a = b"
  by (metis digits_of_value)

lemma digits_of_chars: "ch \<in> set (digits_of n) \<Longrightarrow> ch \<noteq> CHR '' '' \<and> ch \<noteq> CHR ''-''"
proof (induction n rule: digits_of.induct)
  case (1 n)
  show ?case
  proof (cases "n < 10")
    case True
    with 1(2) show ?thesis by (auto simp: digits_of.simps [of n] digit_char_not_space)
  next
    case False
    with 1 show ?thesis
      by (auto simp: digits_of.simps [of n] digit_char_not_space)
  qed
qed

lemma str_int_inject: "str_int a = str_int b \<Longrightarrow> a = b"
proof -
  assume e: "str_int a = str_int b"
  have nm: "\<And>n. hd (digits_of n) \<noteq> CHR ''-''"
  proof -
    fix n
    have "digits_of n \<noteq> []" by (subst digits_of.simps) simp
    then have "hd (digits_of n) \<in> set (digits_of n)" by simp
    then show "hd (digits_of n) \<noteq> CHR ''-''" using digits_of_chars by blast
  qed
  show "a = b"
  proof (cases "a < 0")
    case True
    show ?thesis
    proof (cases "b < 0")
      case True
      with \<open>a < 0\<close> e have "nat (- a) = nat (- b)"
        by (simp add: str_int_def digits_of_inject)
      with True \<open>a < 0\<close> show ?thesis by simp
    next
      case False
      with \<open>a < 0\<close> e nm [of "nat b"] show ?thesis
        by (auto simp: str_int_def dest: arg_cong [where f = hd])
    qed
  next
    case False
    show ?thesis
    proof (cases "b < 0")
      case True
      with False e nm [of "nat a"] show ?thesis
        by (auto simp: str_int_def dest: arg_cong [where f = hd])
    next
      case b: False
      with False e have "nat a = nat b"
        by (simp add: str_int_def digits_of_inject)
      with False b show ?thesis by simp
    qed
  qed
qed

lemma str_int_no_space: "CHR '' '' \<notin> set (str_int i)"
  using digits_of_chars by (auto simp: str_int_def)

lemma err_str_status_text:
  "takeWhile (\<lambda>ch. ch \<noteq> CHR '' '') (drop 6 (err_str r)) = str_int (status_code r)"
proof (cases "reason r")
  case None
  then show ?thesis
    using str_int_no_space [of "status_code r"] by (auto simp: err_str_def takeWhile_eq_all_conv)
next
  case (Some s)
  have "takeWhile (\<lambda>ch. ch \<noteq> CHR '' '') (str_int (status_code r) @ CHR '' '' # ''--- '' @ s)
      = str_int (status_code r)"
    using str_int_no_space [of "status_code r"] by (auto simp: takeWhile_tail takeWhile_eq_all_conv)
  with Some show ?thesis by (simp add: err_str_def)
qed

lemma err_str_status: "err_str r1 = err_str r2 \<Longrightarrow> status_code r1 = status_code r2"
  using err_str_status_text [of r1] err_str_status_text [of r2] str_int_inject by metis

text \<open>
  Claim C5. Let a GET call be waiting for a response, after any responses \<open>rs\<close>. If the
  response has a status other than 200 and 429, the call raises; the error (the spec's
  \<open>RemoteError\<close>, a \<open>ValueError\<close> in the code) carries the status code in decimal and,
  when the response has one, the reason, and the status code can be read back from it.
  Nothing is returned, and no further request is sent.
\<close>

theorem remote_error_aborts_the_call:
  assumes "do_request c ''GET'' ep p rs = (Waiting, tr)"
    and "status_code r \<noteq> 200" and "status_code r \<noteq> 429"
  shows "do_request c ''GET'' ep p (rs @ r # rest) = (Raised (ValueError (err_str r)), tr)
    \<and> err_str r =
        ''Error '' @ str_int (status_code r)
          @ (case reason r of None \<Rightarrow> [] | Some s \<Rightarrow> '' --- '' @ s)
    \<and> (\<forall>r'. err_str r' = err_str r \<longrightarrow> status_code r' = status_code r)"
proof -
  from assms(1) obtain e where ep: "ep = Some e"
    by (cases ep) (auto simp: do_request_GET_any)
  let ?U = "url c @ ''/'' @ e"
  from assms(1) ep have w: "get_loop c ?U p initial_state rs = (Waiting, tr)"
    by (simp add: do_request_GET_any)
  from get_loop_waiting [OF w] obtain st where
    st: "page_size st \<le> response_size st"
        "tr = butlast tr @ [get_request c ?U p st]"
        "\<forall>rs'. get_loop c ?U p initial_state (rs @ rs') =
           (fst (get_loop c ?U p st rs'), butlast tr @ snd (get_loop c ?U p st rs'))"
    by blast
  have o: "on_response st r = Inl (ValueError (err_str r))"
    using assms(2,3) by (simp add: on_response_def)
  with st(1) have "get_loop c ?U p st (r # rest) =
      (Raised (ValueError (err_str r)), [get_request c ?U p st])"
    by simp
  with st(2,3) have "do_request c ''GET'' ep p (rs @ r # rest) =
      (Raised (ValueError (err_str r)), tr)"
    by (simp add: ep do_request_GET_any del: get_loop.simps)
  moreover have "err_str r =
        ''Error '' @ str_int (status_code r)
          @ (case reason r of None \<Rightarrow> [] | Some s \<Rightarrow> '' --- '' @ s)"
    by (simp add: err_str_def)
  moreover have "\<forall>r'. err_str r' = err_str r \<longrightarrow> status_code r' = status_code r"
    using err_str_status by blast
  ultimately show ?thesis by blast
qed

text \<open>The theorem of C5 for a 404 that answers the request for page 2.\<close>

theorem remote_error_aborts_the_call_witness:
  "do_request example_client ''GET'' (Some ''assets'') []
       ([ok (JList (replicate 25 JNull))] @ failed 404 ''Not Found'' # [ok (JList [])]) =
     (Raised (ValueError ''Error 404 --- Not Found''),
      [example_get ''assets'' 1 1000, example_get ''assets'' 2 25])"
proof -
  have h: "do_request example_client ''GET'' (Some ''assets'') [] [ok (JList (replicate 25 JNull))] =
      (Waiting, [example_get ''assets'' 1 1000, example_get ''assets'' 2 25])"
    by code_simp
  have s: "str_int 404 = ''404''"
    by code_simp
  show ?thesis
    using remote_error_aborts_the_call
      [OF h, of "failed 404 ''Not Found''" "[ok (JList [])]"]
    by (simp add: failed_def s err_str_def)
qed

text \<open>
  Claim C4. Put a response with status 429 anywhere among the responses of a GET call.
  The call ends as it does without that response: same result, same error, nothing
  appended, nothing duplicated, no rate-limit error. If the call gets as far as receiving
  the 429, the request that it answers is sent once more, unchanged (same page, same
  page size), and the rest of the requests are those of the call without the 429.
\<close>

theorem rate_limit_retries_the_same_page:
  assumes "status_code r = 429"
  shows "fst (do_request c ''GET'' ep p (rs1 @ r # rs2)) = fst (do_request c ''GET'' ep p (rs1 @ rs2))
    \<and> snd (do_request c ''GET'' ep p (rs1 @ r # rs2)) =
        (let tr = snd (do_request c ''GET'' ep p (rs1 @ rs2)) in
         if length rs1 < length tr then take (Suc (length rs1)) tr @ drop (length rs1) tr else tr)"
proof (cases ep)
  case None
  then show ?thesis by (simp add: do_request_GET_any)
next
  case (Some e)
  then show ?thesis
    using get_loop_insert_429 [OF assms, of c "url c @ ''/'' @ e" p initial_state rs1 rs2]
    by (simp add: do_request_GET_any del: get_loop.simps)
qed

text \<open>The theorem of C4 for a 429 that answers the request for page 2.\<close>

theorem rate_limit_retries_the_same_page_witness:
  "fst (do_request example_client ''GET'' (Some ''assets'') []
         ([ok (JList (replicate 25 JNull))] @ failed 429 ''Too Many Requests'' # [ok (JList [JStr ''z''])]))
     = Returned (JList (replicate 25 JNull @ [JStr ''z'']))
   \<and> snd (do_request example_client ''GET'' (Some ''assets'') []
         ([ok (JList (replicate 25 JNull))] @ failed 429 ''Too Many Requests'' # [ok (JList [JStr ''z''])]))
     = [example_get ''assets'' 1 1000, example_get ''assets'' 2 25, example_get ''assets'' 2 25]"
proof -
  have h: "do_request example_client ''GET'' (Some ''assets'') []
        [ok (JList (replicate 25 JNull)), ok (JList [JStr ''z''])] =
      (Returned (JList (replicate 25 JNull @ [JStr ''z''])),
       [example_get ''assets'' 1 1000, example_get ''assets'' 2 25])"
    by code_simp
  have s: "status_code (failed 429 ''Too Many Requests'') = 429"
    by (simp add: failed_def)
  show ?thesis
    using rate_limit_retries_the_same_page
      [OF s, of example_client "Some ''assets''" "[]" "[ok (JList (replicate 25 JNull))]"
         "[ok (JList [JStr ''z''])]"]
    by (simp add: h)
qed

lemma request_param_page_size:
  "request_param (get_request c U p st) ''page_size'' = Some (JInt (page_size st))"
  by (simp add: get_request_def get_params_def update_conv')

lemma request_param_page:
  "request_param (get_request c U p st) ''page'' = Some (JInt (page st))"
  by (simp add: get_request_def get_params_def update_conv')

lemma get_loop_page_size_25:
  "page_size st = 25 \<Longrightarrow> rq \<in> set (snd (get_loop c U p st rs)) \<Longrightarrow>
   request_param rq ''page_size'' = Some (JInt 25)"
proof (induction rs arbitrary: st)
  case Nil
  then show ?case by (auto simp: request_param_page_size split: if_splits)
next
  case (Cons r rs)
  show ?case
  proof (cases "on_response st r")
    case (Inl e)
    with Cons.prems show ?thesis
      by (auto simp: request_param_page_size split: if_splits)
  next
    case (Inr st1)
    from on_response_page_size [OF Inr] Cons.prems(1) have "page_size st1 = 25" by auto
    from Cons.IH [OF this] Cons.prems Inr show ?thesis
      by (auto simp: request_param_page_size split: if_splits prod.splits)
  qed
qed

lemma page_size_changes_same:
  "\<forall>rq\<in>set tr. request_param rq ''page_size'' = v \<Longrightarrow> page_size_changes tr = 0"
  by (induction tr rule: page_size_changes.induct) auto

lemma page_size_changes_once:
  assumes "request_param a ''page_size'' \<noteq> v" and "tr \<noteq> []"
    and "\<forall>rq\<in>set tr. request_param rq ''page_size'' = v"
  shows "page_size_changes (replicate (Suc n) a @ tr) = 1"
proof (induction n)
  case 0
  from assms(2) obtain b tl where tr: "tr = b # tl" by (cases tr) auto
  with assms(1,3) page_size_changes_same [OF assms(3)] show ?case by auto
next
  case (Suc n)
  then show ?case by simp
qed

lemma on_response_size_25:
  "on_response initial_state r = Inr st1 \<Longrightarrow> response_size st1 = 25 \<Longrightarrow> page_size st1 = 25"
proof -
  have d: "\<And>st d. on_data st d = Inr st1 \<Longrightarrow> response_size st1 = 25 \<Longrightarrow> page_size st1 = 25"
  proof -
    fix st d show "on_data st d = Inr st1 \<Longrightarrow> response_size st1 = 25 \<Longrightarrow> page_size st1 = 25"
      by (cases d) (auto simp: advance_def split: sum.splits if_splits)
  qed
  show "on_response initial_state r = Inr st1 \<Longrightarrow> response_size st1 = 25 \<Longrightarrow> page_size st1 = 25"
    by (auto simp: on_response_def initial_state_def split: if_splits option.splits sum.splits dest: d)
qed

text \<open>
  Claim C2. Let the effective response size of the first page be exactly 25 (after any
  number of rate-limit responses). The requests up to that page ask for page size 1000;
  at least one request follows, and every request that follows asks for page size 25. The
  page size changes exactly once over the whole call.
\<close>

theorem first_page_of_25_downgrades_once:
  assumes "\<forall>r429\<in>set rs429. status_code r429 = 429"
    and "on_response initial_state r = Inr st1" and "response_size st1 = 25"
  shows "(let tr = snd (do_request c ''GET'' (Some ep) p (rs429 @ r # rest));
              n = length rs429
          in take (Suc n) tr =
               replicate (Suc n)
                 (Get (url c @ ''/'' @ ep) (headers c)
                    (AList.update ''page_size'' (JInt 1000) (AList.update ''page'' (JInt 1) p)))
           \<and> drop (Suc n) tr \<noteq> []
           \<and> (\<forall>rq\<in>set (drop (Suc n) tr). request_param rq ''page_size'' = Some (JInt 25))
           \<and> page_size_changes tr = 1)"
proof -
  let ?U = "url c @ ''/'' @ ep"
  let ?rq = "get_request c ?U p initial_state"
  obtain out tr1 where g: "get_loop c ?U p st1 rest = (out, tr1)"
    by (cases "get_loop c ?U p st1 rest")
  have ps: "page_size st1 = 25"
    using assms(2,3) by (rule on_response_size_25)
  from get_loop_head [of st1 c ?U p rest] ps assms(3) g have ne: "tr1 \<noteq> []"
    by auto
  have all: "\<forall>rq\<in>set tr1. request_param rq ''page_size'' = Some (JInt 25)"
    using get_loop_page_size_25 [OF ps, of _ c ?U p rest] g by simp
  have one: "get_loop c ?U p initial_state (r # rest) = (out, ?rq # tr1)"
    using assms(2) g by (simp add: initial_cond)
  have tr: "snd (do_request c ''GET'' (Some ep) p (rs429 @ r # rest)) =
      replicate (Suc (length rs429)) ?rq @ tr1"
    using get_loop_429s [OF initial_cond assms(1), of c ?U p "r # rest"] one
    by (simp add: do_request_GET replicate_append_same del: get_loop.simps)
  have a: "request_param ?rq ''page_size'' \<noteq> Some (JInt 25)"
    by (simp add: request_param_page_size initial_state_def)
  show ?thesis
    unfolding Let_def tr
    using ne all page_size_changes_once [OF a ne all, of "length rs429"]
    by (simp add: first_request del: replicate.simps)
qed

text \<open>The theorem of C2 for a 429, two pages of 25 items and an empty page.\<close>

theorem first_page_of_25_downgrades_once_witness:
  "on_response initial_state (ok (JList (replicate 25 JNull))) =
      Inr \<lparr> result = replicate 25 JNull, page = 2, page_size = 25, response_size = 25 \<rparr>
   \<and> snd (do_request example_client ''GET'' (Some ''assets'') []
         ([failed 429 ''Too Many Requests'']
            @ ok (JList (replicate 25 JNull)) # [ok (JList (replicate 25 JNull)), ok (JList [])])) =
       [example_get ''assets'' 1 1000, example_get ''assets'' 1 1000,
        example_get ''assets'' 2 25, example_get ''assets'' 3 25]
   \<and> page_size_changes
        (snd (do_request example_client ''GET'' (Some ''assets'') []
         ([failed 429 ''Too Many Requests'']
            @ ok (JList (replicate 25 JNull)) # [ok (JList (replicate 25 JNull)), ok (JList [])]))) = 1"
proof -
  have o: "on_response initial_state (ok (JList (replicate 25 JNull))) =
      Inr \<lparr> result = replicate 25 JNull, page = 2, page_size = 25, response_size = 25 \<rparr>"
    by code_simp
  have s: "\<forall>r429\<in>set [failed 429 ''Too Many Requests'']. status_code r429 = 429"
    by (simp add: failed_def)
  have t: "snd (do_request example_client ''GET'' (Some ''assets'') []
         [failed 429 ''Too Many Requests'', ok (JList (replicate 25 JNull)),
          ok (JList (replicate 25 JNull)), ok (JList [])]) =
       [example_get ''assets'' 1 1000, example_get ''assets'' 1 1000,
        example_get ''assets'' 2 25, example_get ''assets'' 3 25]"
    by code_simp
  show ?thesis
    using first_page_of_25_downgrades_once
      [OF s o, of example_client "''assets''" "[]" "[ok (JList (replicate 25 JNull)), ok (JList [])]"]
    by (simp add: o t Let_def)
qed

lemma get_loop_requests:
  "rq \<in> set (snd (get_loop c U p st rs)) \<Longrightarrow> \<exists>st1. rq = get_request c U p st1"
proof (induction rs arbitrary: st)
  case Nil
  then show ?case by (auto split: if_splits)
next
  case (Cons r rs)
  show ?case
  proof (cases "on_response st r")
    case (Inl e)
    with Cons.prems show ?thesis by (auto split: if_splits)
  next
    case (Inr st1)
    with Cons.prems Cons.IH [of st1] show ?thesis
      by (auto split: if_splits prod.splits)
  qed
qed

lemma request_param_other:
  "k \<noteq> ''page'' \<Longrightarrow> k \<noteq> ''page_size'' \<Longrightarrow>
   request_param (get_request c U p st) k = map_of p k"
  by (simp add: get_request_def get_params_def update_conv')

lemma do_request_GET_params:
  assumes "rq \<in> set (snd (do_request c ''GET'' ep p rs))"
    and "k \<noteq> ''page''" and "k \<noteq> ''page_size''"
  shows "request_param rq k = map_of p k"
proof (cases ep)
  case None
  with assms(1) show ?thesis by (simp add: do_request_GET_any)
next
  case (Some e)
  with assms(1) get_loop_requests [of rq c "url c @ ''/'' @ e" p initial_state rs]
  obtain st1 where "rq = get_request c (url c @ ''/'' @ e) p st1"
    by (auto simp: do_request_GET_any)
  with assms(2,3) show ?thesis by (simp add: request_param_other)
qed

lemma activity_logs_params_unpaired:
  "(resource_id = JNull) \<noteq> (resource_type = JNull) \<Longrightarrow>
   activity_logs_params user_id user_email resource_id resource_type action_message start_date =
   activity_logs_params user_id user_email JNull JNull action_message start_date"
  by (auto simp: activity_logs_params_def)

lemma activity_logs_params_none:
  "map_of (activity_logs_params user_id user_email JNull JNull action_message start_date)
      ''resource_id'' = None
   \<and> map_of (activity_logs_params user_id user_email JNull JNull action_message start_date)
      ''resource_type'' = None"
  by (simp add: activity_logs_params_def set_if_given_def update_conv' split: option.splits)

text \<open>
  Claim C10. When exactly one of \<open>resource_id\<close> and \<open>resource_type\<close> is given to
  \<open>get_activity_logs\<close>, the call is the call with neither of them: the parameter
  mapping handed to \<open>do_request\<close> has neither key, no request that is sent carries
  either, and no error is raised for the mismatch (with no response yet, the call has
  sent its first request and waits).
\<close>

theorem activity_logs_drops_unpaired_resource_filter:
  assumes "(resource_id = JNull) \<noteq> (resource_type = JNull)"
  shows "get_activity_logs c user_id user_email resource_id resource_type action_message start_date rs =
           get_activity_logs c user_id user_email JNull JNull action_message start_date rs
    \<and> map_of (activity_logs_params user_id user_email resource_id resource_type action_message
                start_date) ''resource_id'' = None
    \<and> map_of (activity_logs_params user_id user_email resource_id resource_type action_message
                start_date) ''resource_type'' = None
    \<and> get_activity_logs c user_id user_email resource_id resource_type action_message start_date [] =
         (Waiting,
          [Get (url c @ ''/activity_logs'') (headers c)
             (AList.update ''page_size'' (JInt 1000) (AList.update ''page'' (JInt 1)
                (activity_logs_params user_id user_email resource_id resource_type action_message
                   start_date)))])
    \<and> (\<forall>rq\<in>set (snd (get_activity_logs c user_id user_email resource_id resource_type
                          action_message start_date rs)).
          request_param rq ''resource_id'' = None \<and> request_param rq ''resource_type'' = None)"
proof -
  note u = activity_logs_params_unpaired [OF assms]
  note n = activity_logs_params_none [of user_id user_email action_message start_date]
  have a: "get_activity_logs c user_id user_email resource_id resource_type action_message start_date rs =
           get_activity_logs c user_id user_email JNull JNull action_message start_date rs"
    by (simp add: get_activity_logs_def u)
  have w: "get_activity_logs c user_id user_email resource_id resource_type action_message start_date [] =
         (Waiting,
          [Get (url c @ ''/activity_logs'') (headers c)
             (AList.update ''page_size'' (JInt 1000) (AList.update ''page'' (JInt 1)
                (activity_logs_params user_id user_email resource_id resource_type action_message
                   start_date)))])"
    by (simp add: get_activity_logs_def do_request_GET initial_cond first_request)
  have t: "\<forall>rq\<in>set (snd (get_activity_logs c user_id user_email resource_id resource_type
                          action_message start_date rs)).
          request_param rq ''resource_id'' = None \<and> request_param rq ''resource_type'' = None"
    using n by (auto simp: get_activity_logs_def u do_request_GET_params)
  from a n w t show ?thesis by (simp add: u)
qed

text \<open>The theorem of C10 for a call with a user id and a resource id, no resource type.\<close>

theorem activity_logs_drops_unpaired_resource_filter_witness:
  "get_activity_logs example_client (JInt 3) JNull (JInt 12) JNull JNull None
       [ok (JDict [(''activity_logs'', JList [JDict [(''id'', JInt 1)]])])] =
     (Returned (JList [JDict [(''id'', JInt 1)]]),
      [Get ''https://hudu.example/api/v1/activity_logs'' [(''accept'', ''application/json'')]
         [(''user_id'', JInt 3), (''page'', JInt 1), (''page_size'', JInt 1000)]])
   \<and> get_activity_logs example_client (JInt 3) JNull (JInt 12) JNull JNull None
       [ok (JDict [(''activity_logs'', JList [JDict [(''id'', JInt 1)]])])] =
     get_activity_logs example_client (JInt 3) JNull JNull JNull JNull None
       [ok (JDict [(''activity_logs'', JList [JDict [(''id'', JInt 1)]])])]"
proof -
  have e: "get_activity_logs example_client (JInt 3) JNull JNull JNull JNull None
       [ok (JDict [(''activity_logs'', JList [JDict [(''id'', JInt 1)]])])] =
     (Returned (JList [JDict [(''id'', JInt 1)]]),
      [Get ''https://hudu.example/api/v1/activity_logs'' [(''accept'', ''application/json'')]
         [(''user_id'', JInt 3), (''page'', JInt 1), (''page_size'', JInt 1000)]])"
    by code_simp
  have h: "(JInt 12 = JNull) \<noteq> (JNull = JNull)"
    by simp
  show ?thesis
    using activity_logs_drops_unpaired_resource_filter
      [OF h, of example_client "JInt 3" JNull JNull None
         "[ok (JDict [(''activity_logs'', JList [JDict [(''id'', JInt 1)]])])]"]
    by (simp add: e)
qed

text \<open>
  Claim C8 says that \<open>get_article(id)\<close> issues a GET to \<open>articles/{id}\<close>, and
  \<open>get_asset_layout(id)\<close> likewise. In the code both raise \<open>NameError\<close> and send
  nothing; \<open>get_asset_password\<close>, written without the undefined name, sends the GET.
\<close>

theorem get_article_raises_name_error:
  "get_article c ident rs = (Raised (NameError ''params''), [])
   \<and> get_asset_layout c ident rs = (Raised (NameError ''params''), [])
   \<and> get_asset_password c ident [] =
       (Waiting,
        [Get (url c @ ''/asset_passwords/'' @ str_int ident) (headers c)
           [(''page'', JInt 1), (''page_size'', JInt 1000)]])"
  by (simp add: get_article_def get_asset_layout_def get_asset_password_def do_request_GET
      initial_cond first_request)









lemma add_entry_Inr:
  assumes "add_entry c t = Inr t1"
  obtains name ident kn ki where
    "py_getitem c ''name'' = Inr name" "py_getitem c ''id'' = Inr ident"
    "key_of name = Inr kn" "key_of ident = Inr ki"
    "t1 = (t(kn \<mapsto> ident))(ki \<mapsto> name)"
  using assms by (auto simp: add_entry_def split: sum.splits)

lemma add_entry_pairs:
  assumes add: "add_entry c t = Inr t1"
    and disj: "\<forall>a\<in>insert c S. \<forall>b\<in>insert c S. field_key a ''name'' \<noteq> field_key b ''id''"
    and inv: "\<forall>a\<in>S. pairs_with t S ''name'' ''id'' a \<and> pairs_with t S ''id'' ''name'' a"
    and a: "a \<in> insert c S"
  shows "pairs_with t1 (insert c S) ''name'' ''id'' a \<and> pairs_with t1 (insert c S) ''id'' ''name'' a"
proof -
  from add obtain name ident kn ki where
    c: "py_getitem c ''name'' = Inr name" "py_getitem c ''id'' = Inr ident"
       "key_of name = Inr kn" "key_of ident = Inr ki"
    and t1: "t1 = (t(kn \<mapsto> ident))(ki \<mapsto> name)"
    by (rule add_entry_Inr)
  have fk: "field_key c ''name'' = Inr kn" "field_key c ''id'' = Inr ki"
    using c by (simp_all add: field_key_def)
  from disj fk have ne: "kn \<noteq> ki" by auto
  have cn: "pairs_with t1 (insert c S) ''name'' ''id'' c"
    unfolding pairs_with_def using fk c ne t1 by (intro bexI [of _ c]) auto
  have ci: "pairs_with t1 (insert c S) ''id'' ''name'' c"
    unfolding pairs_with_def using fk c t1 by (intro bexI [of _ c]) auto
  show ?thesis
  proof (cases "a = c")
    case True
    with cn ci show ?thesis by simp
  next
    case False
    with a have aS: "a \<in> S" by simp
    from inv aS obtain b k v where
      b: "b \<in> S" "field_key a ''name'' = Inr k" "field_key b ''name'' = Inr k"
         "py_getitem b ''id'' = Inr v" "t k = Some v"
      unfolding pairs_with_def by blast
    from inv aS obtain b' k' v' where
      b': "b' \<in> S" "field_key a ''id'' = Inr k'" "field_key b' ''id'' = Inr k'"
         "py_getitem b' ''name'' = Inr v'" "t k' = Some v'"
      unfolding pairs_with_def by blast
    from disj aS fk b(2) have kki: "k \<noteq> ki" by force
    from disj aS fk b'(2) have k'kn: "k' \<noteq> kn" by force
    have n: "pairs_with t1 (insert c S) ''name'' ''id'' a"
    proof (cases "k = kn")
      case True
      then show ?thesis
        unfolding pairs_with_def using fk c ne t1 b(2) by (intro bexI [of _ c]) auto
    next
      case False
      then show ?thesis
        unfolding pairs_with_def using kki t1 b by (intro bexI [of _ b]) auto
    qed
    have i: "pairs_with t1 (insert c S) ''id'' ''name'' a"
    proof (cases "k' = ki")
      case True
      then show ?thesis
        unfolding pairs_with_def using fk c t1 b'(2) by (intro bexI [of _ c]) auto
    next
      case False
      then show ?thesis
        unfolding pairs_with_def using k'kn t1 b' by (intro bexI [of _ b']) auto
    qed
    from n i show ?thesis ..
  qed
qed

lemma lookup_table_loop_pairs:
  assumes "lookup_table_loop es t0 = Inr t"
    and "\<forall>a\<in>S \<union> set es. \<forall>b\<in>S \<union> set es. field_key a ''name'' \<noteq> field_key b ''id''"
    and "\<forall>a\<in>S. pairs_with t0 S ''name'' ''id'' a \<and> pairs_with t0 S ''id'' ''name'' a"
  shows "\<forall>a\<in>S \<union> set es.
           pairs_with t (S \<union> set es) ''name'' ''id'' a \<and> pairs_with t (S \<union> set es) ''id'' ''name'' a"
  using assms
proof (induction es arbitrary: t0 S)
  case Nil
  then show ?case by simp
next
  case (Cons c es)
  from Cons.prems(1) obtain t1 where
    add: "add_entry c t0 = Inr t1" and rest: "lookup_table_loop es t1 = Inr t"
    by (auto split: sum.splits)
  have d1: "\<forall>a\<in>insert c S. \<forall>b\<in>insert c S. field_key a ''name'' \<noteq> field_key b ''id''"
    using Cons.prems(2) by auto
  have inv1: "\<forall>a\<in>insert c S. pairs_with t1 (insert c S) ''name'' ''id'' a
                \<and> pairs_with t1 (insert c S) ''id'' ''name'' a"
    using add_entry_pairs [OF add d1 Cons.prems(3)] by blast
  have d2: "\<forall>a\<in>insert c S \<union> set es. \<forall>b\<in>insert c S \<union> set es.
              field_key a ''name'' \<noteq> field_key b ''id''"
    using Cons.prems(2) by auto
  from Cons.IH [OF rest d2 inv1] show ?case by simp
qed

text \<open>
  Claim C7, as amended. Let the table be built from fetched entries in which two entries
  have the same name exactly when they have the same id, and no name is the key that an
  id is. Then for every entry, \<open>table[table[id]] == id\<close> and
  \<open>table[table[name]] == name\<close>, names and ids being keys of the one mapping.
\<close>

theorem lookup_table_round_trip:
  assumes built: "lookup_table temp_raw = Inr t"
    and same: "\<forall>a\<in>set temp_raw. \<forall>b\<in>set temp_raw.
                 (field_key a ''name'' = field_key b ''name'') = (field_key a ''id'' = field_key b ''id'')"
    and apart: "\<forall>a\<in>set temp_raw. \<forall>b\<in>set temp_raw. field_key a ''name'' \<noteq> field_key b ''id''"
    and c: "c \<in> set temp_raw"
    and cn: "py_getitem c ''name'' = Inr name" and ci: "py_getitem c ''id'' = Inr ident"
  shows "(\<exists>w. table_get_twice temp_raw ident = Inr w \<and> py_equal w ident)
       \<and> (\<exists>w. table_get_twice temp_raw name = Inr w \<and> py_equal w name)"
proof -
  have inv: "\<forall>a\<in>set temp_raw.
           pairs_with t (set temp_raw) ''name'' ''id'' a \<and> pairs_with t (set temp_raw) ''id'' ''name'' a"
    using lookup_table_loop_pairs [of temp_raw Map.empty t "{}"] built apart
    by (simp add: lookup_table_def)
  have twice: "\<exists>w. table_get_twice temp_raw x = Inr w \<and> py_equal w x"
    if f: "py_getitem c f = Inr x"
      and fg: "(f = ''name'' \<and> g = ''id'') \<or> (f = ''id'' \<and> g = ''name'')"
    for f g x
  proof -
    from inv c fg obtain b k v where
      b: "b \<in> set temp_raw" "field_key c f = Inr k" "field_key b f = Inr k"
         "py_getitem b g = Inr v" "t k = Some v"
      unfolding pairs_with_def by blast
    from inv b(1) fg obtain b' k' w where
      b': "b' \<in> set temp_raw" "field_key b g = Inr k'" "field_key b' g = Inr k'"
         "py_getitem b' f = Inr w" "t k' = Some w"
      unfolding pairs_with_def by blast
    have kx: "key_of x = Inr k" using b(2) f by (simp add: field_key_def)
    have kv: "key_of v = Inr k'" using b'(2) b(4) by (simp add: field_key_def)
    have "field_key b' f = field_key b f"
      using same b(1) b'(1) b'(2,3) fg by metis
    then have kw: "key_of w = Inr k" using b(3) b'(4) by (simp add: field_key_def)
    have "table_get_twice temp_raw x = Inr w"
      using built kx kv b(5) b'(5) by (simp add: table_get_twice_def table_get_def)
    moreover have "py_equal w x" using kx kw by (simp add: py_equal_def)
    ultimately show ?thesis by blast
  qed
  from twice [OF ci] twice [OF cn] show ?thesis by blast
qed

text \<open>The theorem of C7 for the companies \<open>[{name: "Acme", id: 1}]\<close>, where
  \<open>table["Acme"] == 1\<close> and \<open>table[1] == "Acme"\<close>.\<close>

theorem lookup_table_round_trip_witness:
  "table_get_once acme (JStr ''Acme'') = Inr (JInt 1)
   \<and> table_get_once acme (JInt 1) = Inr (JStr ''Acme'')
   \<and> table_get_twice acme (JInt 1) = Inr (JInt 1) \<and> py_equal (JInt 1) (JInt 1)
   \<and> table_get_twice acme (JStr ''Acme'') = Inr (JStr ''Acme'')
   \<and> py_equal (JStr ''Acme'') (JStr ''Acme'')"
proof -
  have built: "lookup_table acme = Inr ((Map.empty(KStr ''Acme'' \<mapsto> JInt 1))(KInt 1 \<mapsto> JStr ''Acme''))"
    by (simp add: acme_def lookup_table_def add_entry_def)
  have same: "\<forall>a\<in>set acme. \<forall>b\<in>set acme.
      (field_key a ''name'' = field_key b ''name'') = (field_key a ''id'' = field_key b ''id'')"
    by (simp add: acme_def)
  have apart: "\<forall>a\<in>set acme. \<forall>b\<in>set acme. field_key a ''name'' \<noteq> field_key b ''id''"
    by (simp add: acme_def field_key_def)
  have c: "JDict [(''name'', JStr ''Acme''), (''id'', JInt 1)] \<in> set acme"
    by (simp add: acme_def)
  have cn: "py_getitem (JDict [(''name'', JStr ''Acme''), (''id'', JInt 1)]) ''name'' = Inr (JStr ''Acme'')"
    by simp
  have ci: "py_getitem (JDict [(''name'', JStr ''Acme''), (''id'', JInt 1)]) ''id'' = Inr (JInt 1)"
    by simp
  have once: "table_get_once acme (JStr ''Acme'') = Inr (JInt 1)
      \<and> table_get_once acme (JInt 1) = Inr (JStr ''Acme'')"
    by (simp add: table_get_once_def built table_get_def)
  have twice: "table_get_twice acme (JInt 1) = Inr (JInt 1)
      \<and> table_get_twice acme (JStr ''Acme'') = Inr (JStr ''Acme'')"
    by (simp add: table_get_twice_def built table_get_def)
  show ?thesis
    using lookup_table_round_trip [OF built same apart c cn ci] once twice
    by (simp add: py_equal_def)
qed

text \<open>
  As first stated, C7 holds for every fetched collection. Two companies that share a name
  break it: the name keeps the id of the later one, so \<open>table[table[1]]\<close> is 2.
\<close>

theorem lookup_table_round_trip_counterexample:
  "table_get_twice
      [JDict [(''name'', JStr ''Acme''), (''id'', JInt 1)],
       JDict [(''name'', JStr ''Acme''), (''id'', JInt 2)]] (JInt 1) = Inr (JInt 2)
   \<and> \<not> py_equal (JInt 2) (JInt 1)"
  by (simp add: table_get_twice_def lookup_table_def add_entry_def table_get_def py_equal_def)

end
